theory Spec2Isabelle
  imports Complex_Main
begin

section \<open>Shared vocabulary\<close>

text \<open>
  The bot is written in TypeScript. Its functions are embedded as HOL functions over
  explicit state: every object whose fields a function reads or writes is a record that
  the function takes and returns. A promise that an external collaborator hands back is
  an input of the model (it either resolves with a value or rejects), and a \<open>try/catch\<close>
  is a case distinction on that input. Calls to the logger append a line to a list kept
  in the state.
\<close>

datatype level = Info | Debug | Warn | Err | Http | Alert

type_synonym log_line = "level \<times> string"

text \<open>A thrown JavaScript exception, as a value.\<close>

datatype error = TypeError | WriteRejected | SendRejected

text \<open>An awaited promise of a collaborator: it resolves with a value or it rejects.\<close>

datatype 'a promise = Resolved 'a | Rejects

text \<open>
  \<open>Result<T>\<close>: the object \<open>{ success: true, value }\<close> built by \<open>successOf(value)\<close>, or
  the object \<open>{ success: false }\<close> built by \<open>failure()\<close>.
\<close>

datatype 'a result = Success 'a | Failure

section \<open>The money system\<close>

text \<open>
  \<open>bank\<close> is the module variable, read and written by property access (\<open>bank[uid]\<close>), so
  it is a partial map from user ids to balances; balances are integers, as the starting
  wallet and the amounts of the commands are. \<open>bankFile\<close> is what the storage collaborator
  holds under the path \<open>./.private/bank.json\<close>. The functions below are used once the
  bank has been loaded.
\<close>

type_synonym ledger = "string \<rightharpoonup> int"

record money =
  bank :: ledger
  bankFile :: "ledger option"
  bankLog :: "log_line list"

definition startingWallet :: int where
  "startingWallet = 1000"

text \<open>
  \<open>!bank[uid]\<close>: true when the property is missing (\<open>undefined\<close>) and also when the stored
  number is \<open>0\<close>.
\<close>

fun js_not :: "int option \<Rightarrow> bool" where
  "js_not None = True"
| "js_not (Some v) = (v = 0)"

text \<open>
  \<^verbatim>\<open>if (!bank[uid]) bank[uid] = startingWallet; return bank[uid]\<close>
\<close>

definition getWallet :: "string \<Rightarrow> money \<Rightarrow> int \<times> money" where
  "getWallet uid s =
     (if js_not (bank s uid)
      then (startingWallet, s\<lparr>bank := (bank s)(uid \<mapsto> startingWallet)\<rparr>)
      else (case bank s uid of Some v \<Rightarrow> (v, s) | None \<Rightarrow> (startingWallet, s)))"

text \<open>
  The outcome of \<open>file.write\<close>, the storage collaborator: the promise it returns resolves
  once the document is stored, or rejects.
\<close>

datatype write_outcome = Written | WriteFails

text \<open>
  \<^verbatim>\<open>logger.info("saving bank"); return file.write(bankFile, JSON.stringify(bank))\<close>
\<close>

definition saveBank :: "write_outcome \<Rightarrow> money \<Rightarrow> (error + unit) \<times> money" where
  "saveBank w s =
     (let s1 = s\<lparr>bankLog := bankLog s @ [(Info, ''saving bank'')]\<rparr>
      in case w of
           Written \<Rightarrow> (Inr (), s1\<lparr>bankFile := Some (bank s1)\<rparr>)
         | WriteFails \<Rightarrow> (Inl WriteRejected, s1))"

text \<open>
  One turn of the \<open>forEach\<close> callback: \<^verbatim>\<open>bank[uid] = getWallet(uid) + amount\<close>.
\<close>

definition applyEntry :: "money \<Rightarrow> string \<times> int \<Rightarrow> money" where
  "applyEntry s e =
     (case e of (uid, amount) \<Rightarrow>
        (case getWallet uid s of (w, s') \<Rightarrow> s'\<lparr>bank := (bank s')(uid \<mapsto> w + amount)\<rparr>))"

text \<open>
  \<^verbatim>\<open>map.forEach(([uid, amount]) => bank[uid] = getWallet(uid) + amount); await saveBank()\<close>

  The rejection of \<open>saveBank\<close> is not caught, so it is the rejection of \<open>transactionBatch\<close>.
\<close>

definition transactionBatch ::
  "write_outcome \<Rightarrow> (string \<times> int) list \<Rightarrow> money \<Rightarrow> (error + unit) \<times> money" where
  "transactionBatch w m s = saveBank w (foldl applyEntry s m)"

section \<open>The broadcast handler\<close>

text \<open>
  Of a chat message the code reads \<open>snippet.displayMessage\<close> and, under \<open>authorDetails\<close>,
  \<open>displayName\<close> and \<open>channelId\<close>. Of a broadcast it reads \<open>snippet?.liveChatId\<close>, which
  is \<open>undefined\<close> (\<open>None\<close>) when the snippet or the id is missing.
\<close>

record author_details =
  displayName :: string
  channelId :: string

record chat_message =
  displayMessage :: string
  authorDetails :: author_details

record live_broadcast =
  broadcastId :: string
  liveChatId :: "string option"

text \<open>An entry of \<open>calls\<close>, the list the handler inherits from \<open>ApiHandler\<close>.\<close>

record api_call =
  callType :: string
  callSuccess :: bool
  callTime :: nat

record broadcast_handler =
  broadcast :: "live_broadcast option"
  chatHistory :: "chat_message list"
  chatNextPage :: "string option"
  calls :: "api_call list"
  handlerLog :: "log_line list"

text \<open>
  \<open>response.data\<close> of the two list calls. The client library types \<open>items\<close> and
  \<open>nextPageToken\<close> as optional.
\<close>

record broadcast_list =
  broadcastItems :: "live_broadcast list option"

record message_list =
  messageItems :: "chat_message list option"
  nextPageToken :: "string option"

definition logH :: "level \<Rightarrow> string \<Rightarrow> broadcast_handler \<Rightarrow> broadcast_handler" where
  "logH l text s = s\<lparr>handlerLog := handlerLog s @ [(l, text)]\<rparr>"

text \<open>\<^verbatim>\<open>this.calls.unshift({ type, success, time: new Date() })\<close>\<close>

definition unshiftCall :: "string \<Rightarrow> bool \<Rightarrow> nat \<Rightarrow> broadcast_handler \<Rightarrow> broadcast_handler" where
  "unshiftCall ty ok now s =
     s\<lparr>calls := \<lparr>callType = ty, callSuccess = ok, callTime = now\<rparr> # calls s\<rparr>"

text \<open>\<^verbatim>\<open>return this._broadcast?.snippet?.liveChatId\<close>\<close>

definition liveChatID :: "broadcast_handler \<Rightarrow> string option" where
  "liveChatID s = (case broadcast s of None \<Rightarrow> None | Some b \<Rightarrow> liveChatId b)"

text \<open>
  \<open>Array.prototype.slice(start, end)\<close> on integer arguments: a negative argument counts
  from the end of the array, both are clamped to the array, and an empty array is
  returned when the end does not lie after the start.
\<close>

definition js_slice :: "'a list \<Rightarrow> int \<Rightarrow> int \<Rightarrow> 'a list" where
  "js_slice xs start stop =
     (let len = int (length xs);
          k = (if start < 0 then max (len + start) 0 else min start len);
          final = (if stop < 0 then max (len + stop) 0 else min stop len)
      in take (nat (final - k)) (drop (nat k) xs))"

text \<open>
  \<^verbatim>\<open>return this.chatHistory.slice(index, max > 0 ? index + max + 1 : this.chatHistory.length)\<close>

  \<open>max\<close> defaults to 0.
\<close>

definition chatPage :: "int \<Rightarrow> int \<Rightarrow> broadcast_handler \<Rightarrow> chat_message list" where
  "chatPage index mx s =
     js_slice (chatHistory s) index
       (if mx > 0 then index + mx + 1 else int (length (chatHistory s)))"

text \<open>
  \<open>fetchBroadcast\<close>. The argument \<open>response\<close> is the awaited promise of
  \<open>client.liveBroadcasts.list\<close>, \<open>now\<close> the value of \<open>new Date()\<close>. Reading \<open>.length\<close> of a
  missing \<open>items\<close> throws inside the \<open>try\<close> and lands in the \<open>catch\<close>, as a rejection does;
  an empty \<open>items\<close> falls through the \<open>if\<close> to the code after the \<open>try\<close>.
\<close>

definition fetchBroadcast ::
  "nat \<Rightarrow> broadcast_list promise \<Rightarrow> broadcast_handler
     \<Rightarrow> live_broadcast result \<times> broadcast_handler" where
  "fetchBroadcast now response s =
     (let s1 = logH Http ''fetching active broadcast'' s;
          caught = logH Err ''failed to fetch broadcast'' s1
      in case response of
           Rejects \<Rightarrow> (Failure, unshiftCall ''list/broadcast'' False now caught)
         | Resolved d \<Rightarrow>
             (case broadcastItems d of
                None \<Rightarrow> (Failure, unshiftCall ''list/broadcast'' False now caught)
              | Some [] \<Rightarrow> (Failure, unshiftCall ''list/broadcast'' False now s1)
              | Some (b # bs) \<Rightarrow>
                  (Success b,
                   unshiftCall ''list/broadcast'' True now (s1\<lparr>broadcast := Some b\<rparr>))))"

text \<open>
  \<open>fetchChatMessages\<close>. \<open>listCall\<close> is \<open>client.liveChatMessages.list\<close> as a function of the
  \<open>liveChatId\<close> and the \<open>pageToken\<close> it is called with. The cursor is assigned before the
  items are read; spreading a missing \<open>items\<close> into \<open>push\<close> throws and lands in the \<open>catch\<close>.
\<close>

definition fetchChatMessages ::
  "nat \<Rightarrow> (string option \<Rightarrow> string option \<Rightarrow> message_list promise) \<Rightarrow> broadcast_handler
     \<Rightarrow> chat_message list result \<times> broadcast_handler" where
  "fetchChatMessages now listCall s =
     (let s1 = logH Http ''fetching chat messages'' s
      in case listCall (liveChatID s1) (chatNextPage s1) of
           Rejects \<Rightarrow>
             (Failure,
              unshiftCall ''list/message'' False now (logH Err ''failed to fetch chat messages'' s1))
         | Resolved d \<Rightarrow>
             (let s2 = s1\<lparr>chatNextPage := nextPageToken d\<rparr>
              in case messageItems d of
                   None \<Rightarrow>
                     (Failure,
                      unshiftCall ''list/message'' False now
                        (logH Err ''failed to fetch chat messages'' s2))
                 | Some newMessages \<Rightarrow>
                     (Success newMessages,
                      unshiftCall ''list/message'' True now
                        (s2\<lparr>chatHistory := chatHistory s2 @ newMessages\<rparr>))))"

text \<open>
  \<open>sendMessage\<close>. \<open>insertCall\<close> is \<open>client.liveChatMessages.insert\<close> as a function of the
  \<open>liveChatId\<close> and the text it is called with.
\<close>

definition sendMessage ::
  "string \<Rightarrow> (string option \<Rightarrow> string \<Rightarrow> chat_message promise) \<Rightarrow> broadcast_handler
     \<Rightarrow> chat_message result \<times> broadcast_handler" where
  "sendMessage messageText insertCall s =
     (let s1 = logH Http ''sending chat message'' s
      in case insertCall (liveChatID s1) messageText of
           Resolved m \<Rightarrow> (Success m, s1)
         | Rejects \<Rightarrow> (Failure, logH Err ''failed to send new chat message'' s1))"

section \<open>The beatass command\<close>

text \<open>
  A command as the handlers and the builder read it: its name, its aliases (the field
  \<open>alias\<close>), its cost and its cooldown in seconds.
\<close>

record command =
  name :: string
  aliases :: "string list"
  cost :: int
  cooldown :: int

text \<open>The payout descriptor a handler may return: \<open>{ uids, amount }\<close>.\<close>

record payout =
  uids :: "string list"
  amount :: int









section \<open>The builder\<close>

text \<open>
  \<open>CommandBuilder\<close> is used by \<open>buildCommands\<close> through two members only, read after the
  recipe has run on a fresh builder: the getter \<open>allNames\<close> and the method \<open>build()\<close>. A
  recipe is therefore given by what these two return.
\<close>

record command_builder =
  allNames :: "string list"
  build :: command

record token_bin =
  isCommand :: bool
  tokenCommand :: string
  args :: "string list"

text \<open>
  A call of a function that returns a promise: it throws at once, or it returns a
  promise.
\<close>

datatype 'a call = Throws | Returns "'a promise"

text \<open>
  A passive: its predicate and its handler, functions of the message and its tokens
  that return a promise. \<open>'w\<close> is everything these functions can read and write,
  the passive's own memory included; what a call does to it is taken at the call.
\<close>

record 'w passive_entry =
  predicate :: "chat_message \<Rightarrow> token_bin \<Rightarrow> 'w \<Rightarrow> bool call \<times> 'w"
  invoke :: "chat_message \<Rightarrow> token_bin \<Rightarrow> 'w \<Rightarrow> unit call \<times> 'w"

text \<open>
  What a loader field can hold, as far as \<open>typeof\<close>, \<open>=== undefined\<close> and \<open>??\<close> tell values
  apart.
\<close>

datatype js_value = Undefined | Null | Function | NotFunction

record google_config =
  clientId :: "string option"
  clientSecret :: "string option"
  redirectUri :: "string option"

text \<open>A \<open>YoutubeWrapper\<close> instance, by the arguments of its constructor.\<close>

record youtube_wrapper =
  wrapperClientId :: string
  wrapperClientSecret :: string
  wrapperRedirectUri :: string

text \<open>The listeners the builder itself puts on the event bus.\<close>

datatype listener = CommandListener | PassiveListener | UserListener

text \<open>
  The builder's fields. \<open>youtube\<close> is \<open>None\<close> while it is \<open>undefined\<close>; \<open>test\<close> is
  \<open>yukiConfig.test === true\<close>; \<open>prefixSource\<close> is \<open>yukiConfig.prefix.source\<close>; \<open>usercache\<close>
  tells whether the user cache has been constructed.
\<close>

record 'w builder =
  commandRecipes :: "command_builder list"
  commands :: "string \<rightharpoonup> command"
  passives :: "'w passive_entry list"
  tokenLoader :: js_value
  userCacheLoader :: js_value
  youtube :: "youtube_wrapper option"
  test :: bool
  prefixSource :: string
  eventbus :: "listener list"
  usercache :: bool
  builderLog :: "log_line list"

text \<open>The instance a build hands back.\<close>

datatype bot = Yuki | TestYuki

definition logB :: "level \<Rightarrow> string \<Rightarrow> 'w builder \<Rightarrow> 'w builder" where
  "logB l text s = s\<lparr>builderLog := builderLog s @ [(l, text)]\<rparr>"

text \<open>
  The setter \<open>googleConfig\<close>: each field that is not a string is reported, and the wrapper
  is constructed only when all three are strings.
\<close>

definition setGoogleConfig :: "google_config \<Rightarrow> 'w builder \<Rightarrow> 'w builder" where
  "setGoogleConfig config s =
     (let s1 = (if clientId config = None
                then logB Err ''clientId of google config is not defined properly'' s else s);
          s2 = (if clientSecret config = None
                then logB Err ''clientSecret of google config is not defined properly'' s1
                else s1);
          s3 = (if redirectUri config = None
                then logB Err ''redirectUri of google config is not defined properly'' s2
                else s2)
      in case (clientId config, clientSecret config, redirectUri config) of
           (Some i, Some c, Some r) \<Rightarrow>
             s3\<lparr>youtube := Some \<lparr>wrapperClientId = i, wrapperClientSecret = c,
                                  wrapperRedirectUri = r\<rparr>\<rparr>
         | _ \<Rightarrow> s3)"

text \<open>
  \<open>prebuildCheck\<close>: three checks that fail the build, then two that only warn.
\<close>

definition prebuildCheck :: "'w builder \<Rightarrow> bool \<times> 'w builder" where
  "prebuildCheck s =
     (if youtube s = None
      then (False,
            logB Err ''google config not set. make sure you've used `builder.googleConfig = {...}`'' s)
      else if tokenLoader s \<noteq> Function
      then (False,
            logB Err ''token loader not set. make sure you've used `builder.tokenLoader = () => ...`'' s)
      else if userCacheLoader s \<noteq> Undefined \<and> userCacheLoader s \<noteq> Function
      then (False, logB Err ''user cache loader must be a function'' s)
      else
        (let s1 = (if eventbus s = [] \<and> passives s = [] \<and> commands s = Map.empty
                   then logB Alert ''no commands, passives, or listeners were set'' s else s);
             s2 = (if prefixSource s1 \<noteq> [] \<and> last (prefixSource s1) = CHR ''$''
                   then logB Warn
                     (''prefix ends with '' @ [CHR 0x27] @ ''$'' @ [CHR 0x27]
                      @ '' which may result in commands not being recognized''
                      @ ''. Prefixes should resemble this regex /^!/'') s1
                   else s1)
         in (True, s2)))"

text \<open>
  \<open>buildCommands\<close>, one recipe per step of the \<open>for\<close> loop: the names of the recipe that
  are already keys of \<open>commands\<close> are collected; if there is any, each is reported and the
  loop \<open>continue\<close>s with the next recipe; otherwise the command is built and stored under
  its name and each alias.
\<close>

definition warnDuplicate :: "'w builder \<Rightarrow> string \<Rightarrow> 'w builder" where
  "warnDuplicate s n =
     logB Warn (''command with name '' @ n @ '' has already been registered.''
                @ '' this duplicate will be skipped'') s"

definition registerName :: "command \<Rightarrow> 'w builder \<Rightarrow> string \<Rightarrow> 'w builder" where
  "registerName c s cname =
     logB Debug (''registered command '' @ [CHR 0x22] @ cname @ [CHR 0x22])
       (s\<lparr>commands := (commands s)(cname \<mapsto> c)\<rparr>)"

fun buildCommands :: "command_builder list \<Rightarrow> 'w builder \<Rightarrow> 'w builder" where
  "buildCommands [] s = s"
| "buildCommands (b # recipes) s =
     (let duplicates = filter (\<lambda>n. commands s n \<noteq> None) (allNames b)
      in if length duplicates > 0
         then buildCommands recipes (foldl warnDuplicate s duplicates)
         else buildCommands recipes
                (foldl (registerName (build b)) s (name (build b) # aliases (build b))))"

definition addCommandListener :: "'w builder \<Rightarrow> 'w builder" where
  "addCommandListener s =
     (if commands s = Map.empty then s else s\<lparr>eventbus := eventbus s @ [CommandListener]\<rparr>)"

definition addPassiveListener :: "'w builder \<Rightarrow> 'w builder" where
  "addPassiveListener s =
     (if passives s = [] then s else s\<lparr>eventbus := eventbus s @ [PassiveListener]\<rparr>)"

definition prepare :: "'w builder \<Rightarrow> bool \<times> 'w builder" where
  "prepare s =
     (case prebuildCheck s of
        (ok, s1) \<Rightarrow>
          if \<not> ok then (False, logB Err ''failed to build yukibot'' s1)
          else (True,
                (addPassiveListener (addCommandListener (buildCommands (commandRecipes s1) s1)))
                  \<lparr>usercache := True\<rparr>))"

text \<open>
  \<open>buildTest\<close> first fills what is missing: a mock google config when \<open>youtube\<close> is
  \<open>undefined\<close>, and a token loader when the field is \<open>undefined\<close> or \<open>null\<close> (\<open>??\<close>).
\<close>

definition fillTestDefaults :: "'w builder \<Rightarrow> 'w builder" where
  "fillTestDefaults s =
     (let s1 = (if youtube s = None
                then setGoogleConfig
                       \<lparr>clientId = Some ''mock'', clientSecret = Some ''mock'',
                        redirectUri = Some ''mock''\<rparr> s
                else s)
      in s1\<lparr>tokenLoader :=
               (if tokenLoader s1 = Undefined \<or> tokenLoader s1 = Null then Function
                else tokenLoader s1)\<rparr>)"

definition buildTest :: "'w builder \<Rightarrow> bot option \<times> 'w builder" where
  "buildTest s =
     (case prepare (fillTestDefaults s) of
        (ok, s1) \<Rightarrow> if \<not> ok then (None, s1) else (Some TestYuki, s1\<lparr>test := True\<rparr>))"

definition buildYuki :: "'w builder \<Rightarrow> bot option \<times> 'w builder" where
  "buildYuki s =
     (if test s then buildTest (logB Warn ''running in TEST mode'' s)
      else case prepare s of
             (ok, s1) \<Rightarrow> if \<not> ok then (None, s1) else (Some Yuki, s1))"

section \<open>The passive listener\<close>


text \<open>\<open>await Promise.all(ps)\<close>: the values if every promise resolves, a rejection otherwise.\<close>

fun awaitAll :: "'a promise list \<Rightarrow> 'a list promise" where
  "awaitAll [] = Resolved []"
| "awaitAll (Rejects # ps) = Rejects"
| "awaitAll (Resolved v # ps) =
     (case awaitAll ps of Rejects \<Rightarrow> Rejects | Resolved vs \<Rightarrow> Resolved (v # vs))"


text \<open>
  The handler \<open>onMessage\<close> puts on the event bus, run on the messages of one batch:
  \<^verbatim>\<open>for (const msg of incoming) { const value = await listener(msg); if (deathPredicate && (await deathPredicate(msg, value))) { self.remove(); return } }\<close>

  A rejection of the listener or of the death predicate leaves the loop, and the
  messages after it are not looked at. The result tells whether \<open>self.remove()\<close> was
  called. The passive listener is registered without a death predicate.
\<close>

fun onMessage ::
  "(chat_message \<Rightarrow> 'st \<Rightarrow> 'v promise \<times> 'st)
     \<Rightarrow> (chat_message \<Rightarrow> 'v \<Rightarrow> 'st \<Rightarrow> bool promise \<times> 'st) option
     \<Rightarrow> chat_message list \<Rightarrow> 'st \<Rightarrow> bool promise \<times> 'st" where
  "onMessage listener deathPredicate [] st = (Resolved False, st)"
| "onMessage listener deathPredicate (msg # incoming) st =
     (case listener msg st of
        (Rejects, st1) \<Rightarrow> (Rejects, st1)
      | (Resolved v, st1) \<Rightarrow>
          (case deathPredicate of
             None \<Rightarrow> onMessage listener deathPredicate incoming st1
           | Some dies \<Rightarrow>
               (case dies msg v st1 of
                  (Rejects, st2) \<Rightarrow> (Rejects, st2)
                | (Resolved removed, st2) \<Rightarrow>
                    if removed then (Resolved True, st2)
                    else onMessage listener deathPredicate incoming st2)))"

section \<open>The user cache\<close>

text \<open>
  Modelled from the spec: the class \<open>AsyncCache\<close> is not among the sources, only its
  construction in \<open>prepare\<close> is. The spec describes it as a keyed cache whose entries are
  empty, loading, populated or failed. \<open>get(key)\<close> returns a populated entry at once;
  awaits the load in flight when the entry is loading, without starting another; and on
  an empty or failed entry moves it to loading and invokes the loader once. When the
  loader settles, the entry becomes populated (success) or failed (failure) and every
  waiter is resolved with that outcome. Scheduling is cooperative and single-threaded, so
  a run is a sequence of events: a caller calls \<open>get\<close> on a key, or the load of a key
  settles. Calls are told apart by a number; \<open>loaderCalls\<close> lists the keys the loader was
  invoked with, \<open>resolutions\<close> the calls resolved so far, each with its outcome.
\<close>

datatype 'v cache_entry = Empty | Loading "nat list" | Populated 'v | Failed

record ('k, 'v) async_cache =
  entries :: "'k \<Rightarrow> 'v cache_entry"
  loaderCalls :: "'k list"
  resolutions :: "(nat \<times> 'v result) list"

datatype ('k, 'v) cache_event = Get nat 'k | LoaderSettles 'k "'v result"

definition startLoad :: "nat \<Rightarrow> 'k \<Rightarrow> ('k, 'v) async_cache \<Rightarrow> ('k, 'v) async_cache" where
  "startLoad caller k c =
     c\<lparr>entries := (entries c)(k := Loading [caller]), loaderCalls := loaderCalls c @ [k]\<rparr>"

fun cacheStep :: "('k, 'v) async_cache \<Rightarrow> ('k, 'v) cache_event \<Rightarrow> ('k, 'v) async_cache" where
  "cacheStep c (Get caller k) =
     (case entries c k of
        Populated v \<Rightarrow> c\<lparr>resolutions := resolutions c @ [(caller, Success v)]\<rparr>
      | Loading waiters \<Rightarrow> c\<lparr>entries := (entries c)(k := Loading (waiters @ [caller]))\<rparr>
      | Empty \<Rightarrow> startLoad caller k c
      | Failed \<Rightarrow> startLoad caller k c)"
| "cacheStep c (LoaderSettles k r) =
     (case entries c k of
        Loading waiters \<Rightarrow>
          c\<lparr>entries := (entries c)(k := (case r of Success v \<Rightarrow> Populated v
                                                    | Failure \<Rightarrow> Failed)),
            resolutions := resolutions c @ map (\<lambda>w. (w, r)) waiters\<rparr>
      | Empty \<Rightarrow> c
      | Populated v \<Rightarrow> c
      | Failed \<Rightarrow> c)"

text \<open>The calls of \<open>get\<close> on a key among some events, in order.\<close>

fun getsFor :: "'k \<Rightarrow> ('k, 'v) cache_event list \<Rightarrow> nat list" where
  "getsFor k [] = []"
| "getsFor k (Get caller k' # evs) = (if k' = k then caller # getsFor k evs else getsFor k evs)"
| "getsFor k (LoaderSettles k' r # evs) = getsFor k evs"

text \<open>Whether an event is the load of a key settling.\<close>

fun settles :: "'k \<Rightarrow> ('k, 'v) cache_event \<Rightarrow> bool" where
  "settles k (Get caller k') = False"
| "settles k (LoaderSettles k' r) = (k' = k)"

section \<open>Reference definitions and sample values\<close>

text \<open>
  The slice the description of \<open>chatPage\<close> speaks of: the elements of a list at the
  positions from \<open>a\<close> up to, but excluding, \<open>b\<close>, as far as the list goes.
\<close>

definition slice_spec :: "'a list \<Rightarrow> nat \<Rightarrow> nat \<Rightarrow> 'a list" where
  "slice_spec xs a b = map (\<lambda>k. xs ! k) [a ..< min b (length xs)]"

text \<open>
  A world in which the calls of the passives can be read off: a journal, into which the
  sample passives below write each call of theirs.
\<close>

datatype journal_entry = PredicateCalled nat | HandlerInvoked nat

text \<open>
  The builder as its constructor and field initialisers leave it: nothing registered, no
  loader, no google config, the default prefix. It holds no passive; its type is the one
  of a builder whose passives work on the journal.
\<close>

definition newYukiBuilder :: "journal_entry list builder" where
  "newYukiBuilder =
     \<lparr>commandRecipes = [], commands = Map.empty, passives = [], tokenLoader = Undefined,
      userCacheLoader = Undefined, youtube = None, test = False,
      prefixSource = ''^([>!]|y!)'', eventbus = [], usercache = False, builderLog = []\<rparr>"

abbreviation sampleMessage :: "string \<Rightarrow> chat_message" where
  "sampleMessage text \<equiv>
     \<lparr>displayMessage = text, authorDetails = \<lparr>displayName = ''viewer'', channelId = ''UC1''\<rparr>\<rparr>"

abbreviation sampleHandler ::
  "live_broadcast option \<Rightarrow> chat_message list \<Rightarrow> string option \<Rightarrow> broadcast_handler" where
  "sampleHandler b h c \<equiv>
     \<lparr>broadcast = b, chatHistory = h, chatNextPage = c, calls = [], handlerLog = []\<rparr>"

abbreviation sampleRecipe :: "string \<Rightarrow> string list \<Rightarrow> command_builder" where
  "sampleRecipe n as \<equiv>
     \<lparr>allNames = n # as, build = \<lparr>name = n, aliases = as, cost = 0, cooldown = 0\<rparr>\<rparr>"


text \<open>What a call leaves behind, whatever it returns.\<close>

definition worldAfter :: "'w \<Rightarrow> ('w \<Rightarrow> 'a call \<times> 'w) \<Rightarrow> 'w" where
  "worldAfter w f = snd (f w)"


abbreviation emptyCache :: "(string, nat) async_cache" where
  "emptyCache \<equiv> \<lparr>entries = (\<lambda>k. Empty), loaderCalls = [], resolutions = []\<rparr>"

section \<open>Results about the money system\<close>

lemma getWallet_unseen:
  "bank s uid = None \<Longrightarrow>
   getWallet uid s = (startingWallet, s\<lparr>bank := (bank s)(uid \<mapsto> startingWallet)\<rparr>)"
  by (simp add: getWallet_def)

lemma getWallet_nonzero:
  "bank s uid = Some v \<Longrightarrow> v \<noteq> 0 \<Longrightarrow> getWallet uid s = (v, s)"
  by (simp add: getWallet_def)

text \<open>
  C2. A user whose stored balance is exactly 0 has an entry in the bank, yet
  \<open>getWallet\<close> answers the starting balance 1000 and overwrites the stored 0 with it.
\<close>

theorem getWallet_zero_balance_reseeded:
  "getWallet ''u'' \<lparr>bank = [''u'' \<mapsto> 0], bankFile = None, bankLog = []\<rparr>
     = (1000, \<lparr>bank = [''u'' \<mapsto> 1000], bankFile = None, bankLog = []\<rparr>)"
  by (simp add: getWallet_def startingWallet_def)

lemma applyEntry_bank:
  "bank (applyEntry s (uid, a)) = (bank s)(uid \<mapsto> fst (getWallet uid s) + a)"
  by (auto simp: applyEntry_def getWallet_def split: option.splits)

lemma applyEntry_bankFile: "bankFile (applyEntry s e) = bankFile s"
  by (cases e) (auto simp: applyEntry_def getWallet_def split: option.splits)

lemma applyEntry_bankLog: "bankLog (applyEntry s e) = bankLog s"
  by (cases e) (auto simp: applyEntry_def getWallet_def split: option.splits)

lemma getWallet_value_cong:
  "bank s uid = bank t uid \<Longrightarrow> fst (getWallet uid s) = fst (getWallet uid t)"
  by (auto simp: getWallet_def split: option.splits)

lemma foldl_applyEntry_bankFile: "bankFile (foldl applyEntry s m) = bankFile s"
  by (induction m arbitrary: s) (simp_all add: applyEntry_bankFile)

lemma foldl_applyEntry_bankLog: "bankLog (foldl applyEntry s m) = bankLog s"
  by (induction m arbitrary: s) (simp_all add: applyEntry_bankLog)

lemma foldl_applyEntry_other:
  "uid \<notin> fst ` set m \<Longrightarrow> bank (foldl applyEntry s m) uid = bank s uid"
proof (induction m arbitrary: s)
  case Nil
  then show ?case by simp
next
  case (Cons e m)
  obtain u a where e: "e = (u, a)" by (cases e)
  from Cons.prems e have ne: "uid \<noteq> u" and rest: "uid \<notin> fst ` set m" by auto
  have "bank (foldl applyEntry (applyEntry s e) m) uid = bank (applyEntry s e) uid"
    using Cons.IH [OF rest] .
  also have "\<dots> = bank s uid" using ne by (simp add: e applyEntry_bank)
  finally show ?case by simp
qed

lemma foldl_applyEntry_distinct:
  "distinct (map fst m) \<Longrightarrow> (uid, a) \<in> set m \<Longrightarrow>
   bank (foldl applyEntry s m) uid = Some (fst (getWallet uid s) + a)"
proof (induction m arbitrary: s)
  case Nil
  then show ?case by simp
next
  case (Cons e m)
  obtain u b where e: "e = (u, b)" by (cases e)
  from Cons.prems(1) e have fresh: "u \<notin> fst ` set m" and dist: "distinct (map fst m)"
    by auto
  show ?case
  proof (cases "(uid, a) = e")
    case True
    with e have ua: "u = uid" "b = a" by auto
    have "bank (foldl applyEntry (applyEntry s e) m) uid = bank (applyEntry s e) uid"
      using foldl_applyEntry_other fresh ua by simp
    then show ?thesis by (simp add: e ua applyEntry_bank)
  next
    case False
    with Cons.prems(2) have mem: "(uid, a) \<in> set m" by auto
    with fresh have ne: "uid \<noteq> u" by force
    have "bank (applyEntry s e) uid = bank s uid" using ne by (simp add: e applyEntry_bank)
    then have "fst (getWallet uid (applyEntry s e)) = fst (getWallet uid s)"
      by (rule getWallet_value_cong)
    with Cons.IH [OF dist mem, of "applyEntry s e"] show ?thesis by simp
  qed
qed

text \<open>
  C3, as stated, fails: when the write is rejected the rejection reaches the caller, but
  the delta has already been applied to the balances in memory.
\<close>

theorem transactionBatch_write_failure_counterexample:
  "fst (transactionBatch WriteFails [(''a'', 5)] \<lparr>bank = Map.empty, bankFile = None, bankLog = []\<rparr>)
     = Inl WriteRejected
   \<and> bank (snd (transactionBatch WriteFails [(''a'', 5)]
               \<lparr>bank = Map.empty, bankFile = None, bankLog = []\<rparr>)) ''a'' = Some 1005
   \<and> bank \<lparr>bank = Map.empty, bankFile = None, bankLog = []\<rparr> ''a'' = None"
  by (simp add: transactionBatch_def saveBank_def applyEntry_def getWallet_def startingWallet_def)

text \<open>
  C3, amended. \<open>transactionBatch\<close> applies every delta to the balances in memory first
  (for a batch that names each user once: the user's wallet, seeded by \<open>getWallet\<close>, plus
  the delta; every other balance untouched) and then writes the whole ledger. That holds
  whatever the write does. When the write succeeds the stored document is the ledger in
  memory; when it is rejected the rejection is the caller's, the stored document is the
  old one and the balances in memory keep the deltas.
\<close>

theorem transactionBatch_applies_then_writes:
  "distinct (map fst m) \<Longrightarrow>
   (\<forall>uid amount. (uid, amount) \<in> set m \<longrightarrow>
      bank (snd (transactionBatch w m s)) uid = Some (fst (getWallet uid s) + amount))
   \<and> (\<forall>uid. uid \<notin> fst ` set m \<longrightarrow> bank (snd (transactionBatch w m s)) uid = bank s uid)
   \<and> fst (transactionBatch Written m s) = Inr ()
   \<and> bankFile (snd (transactionBatch Written m s)) = Some (bank (snd (transactionBatch Written m s)))
   \<and> fst (transactionBatch WriteFails m s) = Inl WriteRejected
   \<and> bankFile (snd (transactionBatch WriteFails m s)) = bankFile s"
proof -
  assume d: "distinct (map fst m)"
  have b: "bank (snd (transactionBatch w m s)) = bank (foldl applyEntry s m)"
    by (cases w) (simp_all add: transactionBatch_def saveBank_def)
  have applied: "\<forall>uid amount. (uid, amount) \<in> set m \<longrightarrow>
      bank (snd (transactionBatch w m s)) uid = Some (fst (getWallet uid s) + amount)"
    using d by (simp only: b) (blast intro: foldl_applyEntry_distinct)
  have others: "\<forall>uid. uid \<notin> fst ` set m \<longrightarrow>
      bank (snd (transactionBatch w m s)) uid = bank s uid"
    by (simp only: b) (blast intro: foldl_applyEntry_other)
  have written: "fst (transactionBatch Written m s) = Inr ()
      \<and> bankFile (snd (transactionBatch Written m s))
          = Some (bank (snd (transactionBatch Written m s)))"
    by (simp add: transactionBatch_def saveBank_def)
  have failed: "fst (transactionBatch WriteFails m s) = Inl WriteRejected
      \<and> bankFile (snd (transactionBatch WriteFails m s)) = bankFile s"
    by (simp add: transactionBatch_def saveBank_def foldl_applyEntry_bankFile)
  from applied others written failed show ?thesis by blast
qed

theorem transactionBatch_applies_then_writes_witness:
  "distinct (map fst [(''a'', 5::int), (''b'', - 3)])
   \<and> bank (snd (transactionBatch WriteFails [(''a'', 5), (''b'', - 3)]
        \<lparr>bank = [''b'' \<mapsto> 10], bankFile = None, bankLog = []\<rparr>)) ''a'' = Some 1005
   \<and> bank (snd (transactionBatch WriteFails [(''a'', 5), (''b'', - 3)]
        \<lparr>bank = [''b'' \<mapsto> 10], bankFile = None, bankLog = []\<rparr>)) ''b'' = Some 7
   \<and> fst (transactionBatch WriteFails [(''a'', 5), (''b'', - 3)]
        \<lparr>bank = [''b'' \<mapsto> 10], bankFile = None, bankLog = []\<rparr>) = Inl WriteRejected"
  using transactionBatch_applies_then_writes
    [of "[(''a'', 5), (''b'', - 3)]" WriteFails
        "\<lparr>bank = [''b'' \<mapsto> 10], bankFile = None, bankLog = []\<rparr>"]
  by (simp add: getWallet_def startingWallet_def)

section \<open>Results about the broadcast handler\<close>

lemma take_drop_slice_spec: "take (b - a) (drop a xs) = slice_spec xs a b"
proof (rule nth_equalityI)
  show len: "length (take (b - a) (drop a xs)) = length (slice_spec xs a b)"
    by (simp add: slice_spec_def)
  fix j
  assume j: "j < length (take (b - a) (drop a xs))"
  then have "j < min b (length xs) - a" by (simp add: min_def split: if_splits)
  then have "slice_spec xs a b ! j = xs ! (a + j)"
    unfolding slice_spec_def by (rule nth_map_upt)
  moreover from j have "a \<le> length xs" by simp arith
  with j have "take (b - a) (drop a xs) ! j = xs ! (a + j)" by simp
  ultimately show "take (b - a) (drop a xs) ! j = slice_spec xs a b ! j" by simp
qed

lemma nat_span: "0 \<le> i \<Longrightarrow> 0 < m \<Longrightarrow> nat (i + m + 1) - nat i = nat (m + 1)"
  by linarith

lemma chatPage_bounded:
  assumes "0 \<le> i" "0 < m"
  shows "chatPage i m s = slice_spec (chatHistory s) (nat i) (nat (i + m + 1))"
proof -
  let ?h = "chatHistory s"
  show ?thesis
  proof (cases "i \<le> int (length ?h)")
    case True
    show ?thesis
    proof (cases "i + m + 1 \<le> int (length ?h)")
      case True
      with assms \<open>i \<le> int (length ?h)\<close>
      have "chatPage i m s = take (nat (i + m + 1) - nat i) (drop (nat i) ?h)"
        by (simp add: chatPage_def js_slice_def Let_def min_def nat_span)
      then show ?thesis by (simp add: take_drop_slice_spec)
    next
      case False
      with assms \<open>i \<le> int (length ?h)\<close>
      have "chatPage i m s = drop (nat i) ?h"
        by (simp add: chatPage_def js_slice_def Let_def min_def)
      moreover have "length (drop (nat i) ?h) \<le> nat (i + m + 1) - nat i"
        using False assms by (simp add: nat_span)
      then have "take (nat (i + m + 1) - nat i) (drop (nat i) ?h) = drop (nat i) ?h"
        by (rule take_all)
      ultimately show ?thesis by (simp add: take_drop_slice_spec)
    qed
  next
    case False
    with assms have "chatPage i m s = []"
      by (simp add: chatPage_def js_slice_def Let_def min_def)
    moreover from False have "length ?h \<le> nat i" by linarith
    then have "slice_spec ?h (nat i) (nat (i + m + 1)) = []"
      by (simp add: slice_spec_def)
    ultimately show ?thesis by simp
  qed
qed

lemma chatPage_default:
  assumes "0 \<le> i"
  shows "chatPage i 0 s = drop (nat i) (chatHistory s)"
  using assms by (auto simp: chatPage_def js_slice_def Let_def min_def)

lemma length_slice_spec: "length (slice_spec xs a b) \<le> b - a"
  by (simp add: slice_spec_def)

text \<open>
  C9. For an index \<open>i \<ge> 0\<close> and a maximum \<open>m > 0\<close>, \<open>chatPage\<close> returns the slice of the
  history from position \<open>i\<close> up to, but excluding, position \<open>i + m + 1\<close>: \<open>m + 1\<close> messages
  when the history holds that many from \<open>i\<close> on, one more than \<open>m\<close>. For \<open>m = 0\<close>, the
  default, it returns the whole history from position \<open>i\<close> on.
\<close>

theorem chatPage_returns_one_more_than_max:
  "0 \<le> i \<Longrightarrow>
   (0 < m \<longrightarrow>
      chatPage i m s = slice_spec (chatHistory s) (nat i) (nat (i + m + 1))
      \<and> length (chatPage i m s) = min (nat (m + 1)) (length (chatHistory s) - nat i))
   \<and> chatPage i 0 s = drop (nat i) (chatHistory s)"
proof -
  assume i: "0 \<le> i"
  have "length (chatPage i m s) = min (nat (m + 1)) (length (chatHistory s) - nat i)"
    if m: "0 < m"
    using i m by (simp add: chatPage_bounded slice_spec_def min_def) linarith
  with i show ?thesis by (simp add: chatPage_bounded chatPage_default)
qed


theorem chatPage_returns_one_more_than_max_witness:
  "(0::int) \<le> 1 \<and> (0::int) < 1
   \<and> chatPage 1 1 (sampleHandler None
         [sampleMessage ''a'', sampleMessage ''b'', sampleMessage ''c'', sampleMessage ''d''] None)
       = [sampleMessage ''b'', sampleMessage ''c'']
   \<and> chatPage 1 0 (sampleHandler None
         [sampleMessage ''a'', sampleMessage ''b'', sampleMessage ''c'', sampleMessage ''d''] None)
       = [sampleMessage ''b'', sampleMessage ''c'', sampleMessage ''d'']"
  using chatPage_returns_one_more_than_max [of 1 1 "sampleHandler None
         [sampleMessage ''a'', sampleMessage ''b'', sampleMessage ''c'', sampleMessage ''d''] None"]
  by (simp add: slice_spec_def)

lemma fetchBroadcast_failure_keeps_broadcast:
  "fst (fetchBroadcast now response s) = Failure \<Longrightarrow>
   snd (fetchBroadcast now response s)
     = s\<lparr>calls := calls (snd (fetchBroadcast now response s)),
         handlerLog := handlerLog (snd (fetchBroadcast now response s))\<rparr>"
  by (auto simp: fetchBroadcast_def logH_def unshiftCall_def Let_def
      split: promise.splits option.splits list.splits)

text \<open>
  When the remote call itself fails (its promise rejects), \<open>fetchBroadcast\<close> returns
  failure and changes nothing but the call record and the log: the held broadcast stays,
  and the function has no publishing step at all. \<open>fetchChatMessages\<close>, when its remote
  call rejects, returns failure and likewise changes only the call record and the log.
\<close>

theorem failed_fetch_leaves_state:
  "fetchBroadcast now Rejects s
     = (Failure,
        s\<lparr>calls := \<lparr>callType = ''list/broadcast'', callSuccess = False, callTime = now\<rparr>
                    # calls s,
          handlerLog := handlerLog s @ [(Http, ''fetching active broadcast''),
                                        (Err, ''failed to fetch broadcast'')]\<rparr>)
   \<and> broadcast (snd (fetchBroadcast now Rejects s)) = broadcast s
   \<and> (listCall (liveChatID s) (chatNextPage s) = Rejects \<longrightarrow>
        fetchChatMessages now listCall s
          = (Failure,
             s\<lparr>calls := \<lparr>callType = ''list/message'', callSuccess = False, callTime = now\<rparr>
                         # calls s,
               handlerLog := handlerLog s @ [(Http, ''fetching chat messages''),
                                             (Err, ''failed to fetch chat messages'')]\<rparr>)
        \<and> chatHistory (snd (fetchChatMessages now listCall s)) = chatHistory s
        \<and> chatNextPage (snd (fetchChatMessages now listCall s)) = chatNextPage s)"
  by (simp add: fetchBroadcast_def fetchChatMessages_def logH_def unshiftCall_def
      liveChatID_def Let_def)

theorem failed_fetch_leaves_state_witness:
  "(\<lambda>a b. Rejects :: message_list promise)
       (liveChatID (sampleHandler (Some \<lparr>broadcastId = ''b1'', liveChatId = Some ''chat1''\<rparr>)
          [sampleMessage ''a''] (Some ''page2'')))
       (chatNextPage (sampleHandler (Some \<lparr>broadcastId = ''b1'', liveChatId = Some ''chat1''\<rparr>)
          [sampleMessage ''a''] (Some ''page2''))) = Rejects
   \<and> fetchChatMessages 7 (\<lambda>a b. Rejects)
        (sampleHandler (Some \<lparr>broadcastId = ''b1'', liveChatId = Some ''chat1''\<rparr>)
          [sampleMessage ''a''] (Some ''page2''))
     = (Failure,
        \<lparr>broadcast = Some \<lparr>broadcastId = ''b1'', liveChatId = Some ''chat1''\<rparr>,
         chatHistory = [sampleMessage ''a''], chatNextPage = Some ''page2'',
         calls = [\<lparr>callType = ''list/message'', callSuccess = False, callTime = 7\<rparr>],
         handlerLog = [(Http, ''fetching chat messages''),
                       (Err, ''failed to fetch chat messages'')]\<rparr>)"
  using failed_fetch_leaves_state [of 7
      "sampleHandler (Some \<lparr>broadcastId = ''b1'', liveChatId = Some ''chat1''\<rparr>)
          [sampleMessage ''a''] (Some ''page2'')" "\<lambda>a b. Rejects"]
  by simp

text \<open>
  The other way into the \<open>catch\<close> of \<open>fetchChatMessages\<close>: a response that carries no
  \<open>items\<close>. The cursor is assigned before the spread of the missing items throws, so
  failure is returned with the history kept and the cursor moved.
\<close>

lemma fetchChatMessages_missing_items:
  "listCall (liveChatID s) (chatNextPage s)
     = Resolved \<lparr>messageItems = None, nextPageToken = t\<rparr> \<Longrightarrow>
   fst (fetchChatMessages now listCall s) = Failure
   \<and> chatHistory (snd (fetchChatMessages now listCall s)) = chatHistory s
   \<and> chatNextPage (snd (fetchChatMessages now listCall s)) = t"
  by (simp add: fetchChatMessages_def logH_def unshiftCall_def liveChatID_def Let_def)

text \<open>
  C5. The held state is not unchanged on every failed fetch: with the cursor at
  \<open>page2\<close>, a response without \<open>items\<close> and with the next page token \<open>page3\<close> makes
  \<open>fetchChatMessages\<close> log the failure, record the call as unsuccessful and return
  failure, and leaves the cursor at \<open>page3\<close>.
\<close>

theorem fetchChatMessages_failure_moves_cursor:
  "fetchChatMessages 7
     (\<lambda>chat page. Resolved \<lparr>messageItems = None, nextPageToken = Some ''page3''\<rparr>)
     (sampleHandler (Some \<lparr>broadcastId = ''b1'', liveChatId = Some ''chat1''\<rparr>)
        [sampleMessage ''a''] (Some ''page2''))
   = (Failure,
      \<lparr>broadcast = Some \<lparr>broadcastId = ''b1'', liveChatId = Some ''chat1''\<rparr>,
       chatHistory = [sampleMessage ''a''], chatNextPage = Some ''page3'',
       calls = [\<lparr>callType = ''list/message'', callSuccess = False, callTime = 7\<rparr>],
       handlerLog = [(Http, ''fetching chat messages''),
                     (Err, ''failed to fetch chat messages'')]\<rparr>)"
  by (simp add: fetchChatMessages_def logH_def unshiftCall_def liveChatID_def Let_def)

text \<open>
  C10. When the list call resolves with no items, \<open>fetchBroadcast\<close> returns failure,
  records the call as unsuccessful and keeps the held broadcast. Its result, the held
  broadcast, the chat history, the cursor and the call record are those of a rejected
  call.
\<close>

theorem empty_broadcast_list_is_failure:
  "fst (fetchBroadcast now (Resolved \<lparr>broadcastItems = Some []\<rparr>) s) = Failure
   \<and> broadcast (snd (fetchBroadcast now (Resolved \<lparr>broadcastItems = Some []\<rparr>) s)) = broadcast s
   \<and> calls (snd (fetchBroadcast now (Resolved \<lparr>broadcastItems = Some []\<rparr>) s))
       = \<lparr>callType = ''list/broadcast'', callSuccess = False, callTime = now\<rparr> # calls s
   \<and> fst (fetchBroadcast now (Resolved \<lparr>broadcastItems = Some []\<rparr>) s)
       = fst (fetchBroadcast now Rejects s)
   \<and> broadcast (snd (fetchBroadcast now (Resolved \<lparr>broadcastItems = Some []\<rparr>) s))
       = broadcast (snd (fetchBroadcast now Rejects s))
   \<and> chatHistory (snd (fetchBroadcast now (Resolved \<lparr>broadcastItems = Some []\<rparr>) s))
       = chatHistory (snd (fetchBroadcast now Rejects s))
   \<and> chatNextPage (snd (fetchBroadcast now (Resolved \<lparr>broadcastItems = Some []\<rparr>) s))
       = chatNextPage (snd (fetchBroadcast now Rejects s))
   \<and> calls (snd (fetchBroadcast now (Resolved \<lparr>broadcastItems = Some []\<rparr>) s))
       = calls (snd (fetchBroadcast now Rejects s))"
  by (simp add: fetchBroadcast_def logH_def unshiftCall_def Let_def)


section \<open>Results about the beatass command\<close>




section \<open>Results about the builder\<close>

lemma commands_logB: "commands (logB l text s) = commands s"
  by (simp add: logB_def)

lemma commands_warnDuplicates: "commands (foldl warnDuplicate s ds) = commands s"
  by (induction ds arbitrary: s) (simp_all add: warnDuplicate_def commands_logB)

lemma commands_registerNames:
  "commands (foldl (registerName c) s ns) n = (if n \<in> set ns then Some c else commands s n)"
  by (induction ns arbitrary: s) (auto simp: registerName_def commands_logB)

lemma buildCommands_append:
  "buildCommands (rs @ rs') s = buildCommands rs' (buildCommands rs s)"
  by (induction rs arbitrary: s) (simp_all add: Let_def)

lemma buildCommands_single:
  "buildCommands [b] s =
     (if filter (\<lambda>n. commands s n \<noteq> None) (allNames b) = []
      then foldl (registerName (build b)) s (name (build b) # aliases (build b))
      else foldl warnDuplicate s (filter (\<lambda>n. commands s n \<noteq> None) (allNames b)))"
  by (simp add: Let_def del: not_None_eq foldl_Cons)

lemma buildCommands_accepted:
  assumes "\<forall>n \<in> set (allNames b). commands s n = None"
  shows "commands (buildCommands [b] s) n
     = (if n \<in> set (name (build b) # aliases (build b)) then Some (build b) else commands s n)"
proof -
  from assms have "filter (\<lambda>n. commands s n \<noteq> None) (allNames b) = []"
    by (simp add: filter_empty_conv del: not_None_eq)
  then have "buildCommands [b] s
      = foldl (registerName (build b)) s (name (build b) # aliases (build b))"
    by (simp add: buildCommands_single del: buildCommands.simps not_None_eq foldl_Cons)
  then show ?thesis by (simp only: commands_registerNames)
qed

lemma buildCommands_skipped:
  assumes "\<exists>n \<in> set (allNames b). commands s n \<noteq> None"
  shows "commands (buildCommands [b] s) = commands s"
proof -
  from assms have "filter (\<lambda>n. commands s n \<noteq> None) (allNames b) \<noteq> []"
    by (simp add: filter_empty_conv del: not_None_eq)
  then have "buildCommands [b] s
      = foldl warnDuplicate s (filter (\<lambda>n. commands s n \<noteq> None) (allNames b))"
    by (simp add: buildCommands_single del: buildCommands.simps not_None_eq foldl_Cons)
  then show ?thesis by (simp only: commands_warnDuplicates)
qed

text \<open>
  C1, as stated, fails: the second recipe names \<open>b\<close> with the alias \<open>a\<close>; \<open>a\<close> is taken, \<open>b\<close>
  is not, and after the build \<open>b\<close> is not registered.
\<close>

theorem second_registration_counterexample:
  "commands (buildCommands [sampleRecipe ''a'' []] newYukiBuilder) ''a''
     = Some (build (sampleRecipe ''a'' []))
   \<and> ''a'' \<in> set (allNames (sampleRecipe ''b'' [''a'']))
   \<and> ''b'' \<in> set (allNames (sampleRecipe ''b'' [''a'']))
   \<and> commands (buildCommands [sampleRecipe ''a'' []] newYukiBuilder) ''b'' = None
   \<and> commands (buildCommands [sampleRecipe ''a'' [], sampleRecipe ''b'' [''a'']] newYukiBuilder)
        ''b'' = None"
  by (simp add: newYukiBuilder_def registerName_def warnDuplicate_def logB_def)

text \<open>
  C1, amended. When the first registration is accepted and the second shares a name with
  a command registered by then, the first command stays registered under its name and
  every alias, and the second registration is skipped as a whole: the registry after it
  is the registry before it, so a name of the second registration that did not collide is
  not registered either.
\<close>

theorem duplicate_registration_skipped_whole:
  assumes accepted: "\<forall>n \<in> set (allNames r1). commands s n = None"
    and collides: "\<exists>n \<in> set (allNames r2). commands (buildCommands [r1] s) n \<noteq> None"
  shows "(\<forall>n \<in> set (name (build r1) # aliases (build r1)).
            commands (buildCommands [r1, r2] s) n = Some (build r1))
         \<and> commands (buildCommands [r1, r2] s) = commands (buildCommands [r1] s)
         \<and> (\<forall>n \<in> set (allNames r2).
              commands (buildCommands [r1] s) n = None \<longrightarrow>
              commands (buildCommands [r1, r2] s) n = None)"
proof -
  have split: "buildCommands [r1, r2] s = buildCommands [r2] (buildCommands [r1] s)"
    using buildCommands_append [of "[r1]" "[r2]" s] by simp
  have same: "commands (buildCommands [r1, r2] s) = commands (buildCommands [r1] s)"
    unfolding split using collides by (rule buildCommands_skipped)
  have first: "\<forall>n \<in> set (name (build r1) # aliases (build r1)).
      commands (buildCommands [r1] s) n = Some (build r1)"
    using buildCommands_accepted [OF accepted] by simp
  from same first show ?thesis by simp
qed

theorem duplicate_registration_skipped_whole_witness:
  "commands newYukiBuilder ''a'' = None \<and> commands newYukiBuilder ''x'' = None
   \<and> ''a'' \<in> set (allNames (sampleRecipe ''b'' [''a'']))
   \<and> commands (buildCommands [sampleRecipe ''a'' [''x'']] newYukiBuilder) ''a'' \<noteq> None
   \<and> commands (buildCommands [sampleRecipe ''a'' [''x''], sampleRecipe ''b'' [''a'']]
        newYukiBuilder) ''a'' = Some (build (sampleRecipe ''a'' [''x'']))
   \<and> commands (buildCommands [sampleRecipe ''a'' [''x''], sampleRecipe ''b'' [''a'']]
        newYukiBuilder) ''x'' = Some (build (sampleRecipe ''a'' [''x'']))
   \<and> commands (buildCommands [sampleRecipe ''a'' [''x''], sampleRecipe ''b'' [''a'']]
        newYukiBuilder) ''b'' = None"
proof -
  let ?r1 = "sampleRecipe ''a'' [''x'']" and ?r2 = "sampleRecipe ''b'' [''a'']"
  have e: "commands newYukiBuilder = Map.empty"
    by (simp add: newYukiBuilder_def)
  have a: "\<forall>n \<in> set (allNames ?r1). commands newYukiBuilder n = None"
    by (simp add: e)
  have one: "commands (buildCommands [?r1] newYukiBuilder) ''a'' \<noteq> None"
    and b: "commands (buildCommands [?r1] newYukiBuilder) ''b'' = None"
    by (simp_all add: buildCommands_accepted [OF a] e del: buildCommands.simps)
  from one have c: "\<exists>n \<in> set (allNames ?r2).
      commands (buildCommands [?r1] newYukiBuilder) n \<noteq> None"
    by (simp del: buildCommands.simps)
  note th = duplicate_registration_skipped_whole [OF a c]
  from th have "\<forall>n \<in> set (name (build ?r1) # aliases (build ?r1)).
      commands (buildCommands [?r1, ?r2] newYukiBuilder) n = Some (build ?r1)"
    by (rule conjunct1)
  then have two: "commands (buildCommands [?r1, ?r2] newYukiBuilder) ''a'' = Some (build ?r1)"
    "commands (buildCommands [?r1, ?r2] newYukiBuilder) ''x'' = Some (build ?r1)"
    by (simp_all del: buildCommands.simps)
  from th have "\<forall>n \<in> set (allNames ?r2).
      commands (buildCommands [?r1] newYukiBuilder) n = None \<longrightarrow>
      commands (buildCommands [?r1, ?r2] newYukiBuilder) n = None"
    by (rule conjunct2 [THEN conjunct2])
  with b have three: "commands (buildCommands [?r1, ?r2] newYukiBuilder) ''b'' = None"
    by (simp del: buildCommands.simps)
  from e one two three show ?thesis by (simp del: buildCommands.simps)
qed


lemma prebuildCheck_verdict:
  "fst (prebuildCheck s)
     = (youtube s \<noteq> None \<and> tokenLoader s = Function
        \<and> (userCacheLoader s = Undefined \<or> userCacheLoader s = Function))"
  by (auto simp: prebuildCheck_def Let_def)

lemma prebuildCheck_failed_state:
  "\<not> fst (prebuildCheck s) \<Longrightarrow>
   commands (snd (prebuildCheck s)) = commands s
   \<and> eventbus (snd (prebuildCheck s)) = eventbus s
   \<and> usercache (snd (prebuildCheck s)) = usercache s"
  by (auto simp: prebuildCheck_def Let_def logB_def split: if_splits)

lemma prepare_failed:
  "\<not> fst (prebuildCheck s) \<Longrightarrow>
   fst (prepare s) = False
   \<and> commands (snd (prepare s)) = commands s
   \<and> eventbus (snd (prepare s)) = eventbus s
   \<and> usercache (snd (prepare s)) = usercache s"
  using prebuildCheck_failed_state [of s]
  by (cases "prebuildCheck s") (simp add: prepare_def logB_def)

lemma prepare_verdict: "fst (prepare s) = fst (prebuildCheck s)"
  by (cases "prebuildCheck s") (simp add: prepare_def)

lemma setGoogleConfig_mock:
  "youtube (setGoogleConfig \<lparr>clientId = Some i, clientSecret = Some c, redirectUri = Some r\<rparr> s)
     \<noteq> None
   \<and> tokenLoader (setGoogleConfig \<lparr>clientId = Some i, clientSecret = Some c, redirectUri = Some r\<rparr> s)
     = tokenLoader s
   \<and> userCacheLoader (setGoogleConfig \<lparr>clientId = Some i, clientSecret = Some c, redirectUri = Some r\<rparr> s)
     = userCacheLoader s
   \<and> commands (setGoogleConfig \<lparr>clientId = Some i, clientSecret = Some c, redirectUri = Some r\<rparr> s)
     = commands s
   \<and> eventbus (setGoogleConfig \<lparr>clientId = Some i, clientSecret = Some c, redirectUri = Some r\<rparr> s)
     = eventbus s
   \<and> usercache (setGoogleConfig \<lparr>clientId = Some i, clientSecret = Some c, redirectUri = Some r\<rparr> s)
     = usercache s"
  by (simp add: setGoogleConfig_def)

lemma fillTestDefaults_fields:
  "youtube (fillTestDefaults s) \<noteq> None
   \<and> tokenLoader (fillTestDefaults s)
       = (if tokenLoader s = NotFunction then NotFunction else Function)
   \<and> userCacheLoader (fillTestDefaults s) = userCacheLoader s
   \<and> commands (fillTestDefaults s) = commands s
   \<and> eventbus (fillTestDefaults s) = eventbus s
   \<and> usercache (fillTestDefaults s) = usercache s"
  using setGoogleConfig_mock [of "''mock''" "''mock''" "''mock''" s]
  by (cases "tokenLoader s") (auto simp: fillTestDefaults_def Let_def)

lemma fillTestDefaults_verdict:
  "fst (prebuildCheck (fillTestDefaults s))
     = (tokenLoader s \<noteq> NotFunction
        \<and> (userCacheLoader s = Undefined \<or> userCacheLoader s = Function))"
  by (simp add: prebuildCheck_verdict fillTestDefaults_fields)

lemma buildTest_result:
  "fst (buildTest s) = (if fst (prebuildCheck (fillTestDefaults s)) then Some TestYuki else None)"
  using prepare_verdict [of "fillTestDefaults s"]
  by (cases "prepare (fillTestDefaults s)") (simp add: buildTest_def)

lemma buildTest_failed_state:
  assumes "\<not> fst (prebuildCheck (fillTestDefaults s))"
  shows "commands (snd (buildTest s)) = commands s
   \<and> eventbus (snd (buildTest s)) = eventbus s
   \<and> usercache (snd (buildTest s)) = usercache s"
proof -
  from prepare_failed [OF assms]
  have "snd (buildTest s) = snd (prepare (fillTestDefaults s))"
    by (cases "prepare (fillTestDefaults s)") (simp add: buildTest_def)
  with prepare_failed [OF assms] show ?thesis by (simp add: fillTestDefaults_fields)
qed

lemma buildYuki_test_mode: "test s \<Longrightarrow> fst (buildYuki s) = fst (buildTest s)"
  by (simp add: buildYuki_def buildTest_result fillTestDefaults_verdict logB_def)

lemma buildYuki_failed:
  assumes "\<not> test s" "\<not> fst (prebuildCheck s)"
  shows "fst (buildYuki s) = None
   \<and> commands (snd (buildYuki s)) = commands s
   \<and> eventbus (snd (buildYuki s)) = eventbus s
   \<and> usercache (snd (buildYuki s)) = usercache s"
  using assms prepare_failed [OF assms(2)]
  by (cases "prepare s") (simp add: buildYuki_def)

text \<open>
  C7, as stated, fails for \<open>buildTest\<close>: on a builder with no google config and no token
  loader the validation fails as it stands, yet \<open>buildTest\<close>, and \<open>buildYuki\<close> in test
  mode, return a test bot.
\<close>

theorem buildTest_fills_missing_config_counterexample:
  "youtube newYukiBuilder = None
   \<and> tokenLoader newYukiBuilder \<noteq> Function
   \<and> fst (prebuildCheck newYukiBuilder) = False
   \<and> fst (buildTest newYukiBuilder) = Some TestYuki
   \<and> fst (buildYuki (newYukiBuilder\<lparr>test := True\<rparr>)) = Some TestYuki"
proof -
  have fields: "youtube newYukiBuilder = None" "tokenLoader newYukiBuilder = Undefined"
    "userCacheLoader newYukiBuilder = Undefined"
    by (simp_all add: newYukiBuilder_def)
  have check: "fst (prebuildCheck newYukiBuilder) = False"
    by (simp add: prebuildCheck_verdict fields)
  have test_build: "fst (buildTest newYukiBuilder) = Some TestYuki"
    by (simp add: buildTest_result fillTestDefaults_verdict fields)
  have "fst (buildTest (newYukiBuilder\<lparr>test := True\<rparr>)) = Some TestYuki"
    by (simp add: buildTest_result fillTestDefaults_verdict fields)
  then have "fst (buildYuki (newYukiBuilder\<lparr>test := True\<rparr>)) = Some TestYuki"
    by (simp add: buildYuki_test_mode)
  with fields check test_build show ?thesis by simp
qed

text \<open>
  C7, amended. \<open>prebuildCheck\<close> fails when the google config has not been set or the token
  loader is not a function. When it fails, \<open>buildYuki\<close> outside test mode returns
  \<open>undefined\<close> and has registered no command, added no listener and made no user cache.
  \<open>buildTest\<close>, which \<open>buildYuki\<close> in test mode hands over to, validates after filling in
  a mock google config and a token loader where they are missing; when that validation
  fails it returns \<open>undefined\<close> and has prepared nothing. The filled builder fails
  validation exactly when the token loader holds a value that is neither a function nor
  \<open>undefined\<close> nor \<open>null\<close>, or the user cache loader is set and not a function.
\<close>

theorem failed_validation_builds_nothing:
  "(youtube s = None \<or> tokenLoader s \<noteq> Function \<longrightarrow> \<not> fst (prebuildCheck s))
   \<and> (\<not> test s \<and> \<not> fst (prebuildCheck s) \<longrightarrow>
        fst (buildYuki s) = None
        \<and> commands (snd (buildYuki s)) = commands s
        \<and> eventbus (snd (buildYuki s)) = eventbus s
        \<and> usercache (snd (buildYuki s)) = usercache s)
   \<and> (\<not> fst (prebuildCheck (fillTestDefaults s)) \<longrightarrow>
        fst (buildTest s) = None
        \<and> commands (snd (buildTest s)) = commands s
        \<and> eventbus (snd (buildTest s)) = eventbus s
        \<and> usercache (snd (buildTest s)) = usercache s)
   \<and> (test s \<longrightarrow> fst (buildYuki s) = fst (buildTest s))
   \<and> fst (prebuildCheck (fillTestDefaults s))
       = (tokenLoader s \<noteq> NotFunction
          \<and> (userCacheLoader s = Undefined \<or> userCacheLoader s = Function))"
proof -
  have a: "youtube s = None \<or> tokenLoader s \<noteq> Function \<longrightarrow> \<not> fst (prebuildCheck s)"
    by (auto simp: prebuildCheck_verdict)
  have b: "\<not> fst (prebuildCheck (fillTestDefaults s)) \<longrightarrow>
        fst (buildTest s) = None
        \<and> commands (snd (buildTest s)) = commands s
        \<and> eventbus (snd (buildTest s)) = eventbus s
        \<and> usercache (snd (buildTest s)) = usercache s"
    using buildTest_failed_state [of s] by (simp add: buildTest_result)
  from a b buildYuki_failed [of s] buildYuki_test_mode [of s] fillTestDefaults_verdict [of s]
  show ?thesis by blast
qed

theorem failed_validation_builds_nothing_witness:
  "youtube newYukiBuilder = None
   \<and> \<not> test newYukiBuilder
   \<and> \<not> fst (prebuildCheck newYukiBuilder)
   \<and> fst (buildYuki newYukiBuilder) = None
   \<and> test (newYukiBuilder\<lparr>tokenLoader := NotFunction, test := True\<rparr>)
   \<and> \<not> fst (prebuildCheck
            (fillTestDefaults (newYukiBuilder\<lparr>tokenLoader := NotFunction, test := True\<rparr>)))
   \<and> fst (buildTest (newYukiBuilder\<lparr>tokenLoader := NotFunction, test := True\<rparr>)) = None
   \<and> fst (buildYuki (newYukiBuilder\<lparr>tokenLoader := NotFunction, test := True\<rparr>)) = None"
proof -
  have y: "youtube newYukiBuilder = None" and t: "\<not> test newYukiBuilder"
    by (simp_all add: newYukiBuilder_def)
  have t2: "test (newYukiBuilder\<lparr>tokenLoader := NotFunction, test := True\<rparr>)"
    and l2: "tokenLoader (newYukiBuilder\<lparr>tokenLoader := NotFunction, test := True\<rparr>) = NotFunction"
    by simp_all
  note one = failed_validation_builds_nothing [of newYukiBuilder]
  note two = failed_validation_builds_nothing
    [of "newYukiBuilder\<lparr>tokenLoader := NotFunction, test := True\<rparr>"]
  from one y have p: "\<not> fst (prebuildCheck newYukiBuilder)" by blast
  with one t have r: "fst (buildYuki newYukiBuilder) = None" by blast
  from two l2 have p2: "\<not> fst (prebuildCheck
      (fillTestDefaults (newYukiBuilder\<lparr>tokenLoader := NotFunction, test := True\<rparr>)))"
    by blast
  with two
  have r2: "fst (buildTest (newYukiBuilder\<lparr>tokenLoader := NotFunction, test := True\<rparr>)) = None"
    by blast
  from two t2 r2
  have r3: "fst (buildYuki (newYukiBuilder\<lparr>tokenLoader := NotFunction, test := True\<rparr>)) = None"
    by metis
  from y t p r t2 p2 r2 r3 show ?thesis by blast
qed

section \<open>Results about the passive listener\<close>


lemma awaitAll_of_rejected: "Rejects \<in> set qs \<Longrightarrow> awaitAll qs = Rejects"
proof (induction qs)
  case Nil
  then show ?case by simp
next
  case (Cons q qs)
  then show ?case by (cases q) auto
qed

lemma foldl_worldAfter_Cons:
  "foldl worldAfter w (take (Suc j) (f # fs)) = foldl worldAfter (worldAfter w f) (take j fs)"
  by simp





lemma onMessage_single:
  "onMessage listener None [msg] st
     = (case listener msg st of (Rejects, st1) \<Rightarrow> (Rejects, st1)
                              | (Resolved v, st1) \<Rightarrow> (Resolved False, st1))"
  by (simp split: prod.splits promise.splits)








section \<open>Results about the user cache\<close>

lemma cacheStep_other_key:
  assumes "\<not> settles k e" "getsFor k [e] = []"
  shows "entries (cacheStep c e) k = entries c k"
    and "count_list (loaderCalls (cacheStep c e)) k = count_list (loaderCalls c) k"
proof -
  show "entries (cacheStep c e) k = entries c k"
  proof (cases e)
    case (Get caller k')
    with assms have "k' \<noteq> k" by (auto split: if_splits)
    with Get show ?thesis
      by (cases "entries c k'") (simp_all add: startLoad_def)
  next
    case (LoaderSettles k' r)
    with assms have "k' \<noteq> k" by auto
    with LoaderSettles show ?thesis
      by (cases "entries c k'") simp_all
  qed
  show "count_list (loaderCalls (cacheStep c e)) k = count_list (loaderCalls c) k"
  proof (cases e)
    case (Get caller k')
    with assms have "k' \<noteq> k" by (auto split: if_splits)
    with Get show ?thesis
      by (cases "entries c k'") (simp_all add: startLoad_def)
  next
    case (LoaderSettles k' r)
    then show ?thesis
      by (cases "entries c k'") simp_all
  qed
qed

lemma loading_collects_waiters:
  assumes "entries c k = Loading ws" "\<forall>e \<in> set evs. \<not> settles k e"
  shows "entries (foldl cacheStep c evs) k = Loading (ws @ getsFor k evs)
         \<and> count_list (loaderCalls (foldl cacheStep c evs)) k = count_list (loaderCalls c) k"
  using assms
proof (induction evs arbitrary: c ws)
  case Nil
  then show ?case by simp
next
  case (Cons e evs)
  from Cons.prems(2) have rest: "\<forall>e \<in> set evs. \<not> settles k e" and here: "\<not> settles k e"
    by simp_all
  show ?case
  proof (cases "getsFor k [e] = []")
    case True
    from cacheStep_other_key [OF here True, of c] Cons.prems(1)
    have st: "entries (cacheStep c e) k = Loading ws"
      and cnt: "count_list (loaderCalls (cacheStep c e)) k = count_list (loaderCalls c) k"
      by simp_all
    from True have "getsFor k (e # evs) = getsFor k evs"
      by (cases e) (auto split: if_splits)
    with Cons.IH [OF st rest] cnt show ?thesis by simp
  next
    case False
    then obtain caller where e: "e = Get caller k"
      by (cases e) (auto split: if_splits)
    with Cons.prems(1) have st: "entries (cacheStep c e) k = Loading (ws @ [caller])"
      and cnt: "count_list (loaderCalls (cacheStep c e)) k = count_list (loaderCalls c) k"
      by simp_all
    from Cons.IH [OF st rest] cnt e show ?thesis by simp
  qed
qed

lemma first_get_starts_one_load:
  assumes "entries c k = Empty \<or> entries c k = Failed"
    and "\<forall>e \<in> set evs. \<not> settles k e"
    and "getsFor k evs \<noteq> []"
  shows "entries (foldl cacheStep c evs) k = Loading (getsFor k evs)
         \<and> count_list (loaderCalls (foldl cacheStep c evs)) k
             = count_list (loaderCalls c) k + 1"
  using assms
proof (induction evs arbitrary: c)
  case Nil
  then show ?case by simp
next
  case (Cons e evs)
  from Cons.prems(2) have rest: "\<forall>e \<in> set evs. \<not> settles k e" and here: "\<not> settles k e"
    by simp_all
  show ?case
  proof (cases "getsFor k [e] = []")
    case True
    from cacheStep_other_key [OF here True, of c] Cons.prems(1)
    have st: "entries (cacheStep c e) k = Empty \<or> entries (cacheStep c e) k = Failed"
      and cnt: "count_list (loaderCalls (cacheStep c e)) k = count_list (loaderCalls c) k"
      by simp_all
    from True have same: "getsFor k (e # evs) = getsFor k evs"
      by (cases e) (auto split: if_splits)
    with Cons.prems(3) have "getsFor k evs \<noteq> []" by simp
    from Cons.IH [OF st rest this] cnt same show ?thesis by simp
  next
    case False
    then obtain caller where e: "e = Get caller k"
      by (cases e) (auto split: if_splits)
    with Cons.prems(1) have st: "entries (cacheStep c e) k = Loading [caller]"
      and cnt: "count_list (loaderCalls (cacheStep c e)) k = count_list (loaderCalls c) k + 1"
      by (auto simp: startLoad_def)
    from loading_collects_waiters [OF st rest] cnt e show ?thesis by simp
  qed
qed

lemma settle_resolves_waiters:
  "entries c k = Loading ws \<Longrightarrow>
   resolutions (cacheStep c (LoaderSettles k r)) = resolutions c @ map (\<lambda>w. (w, r)) ws
   \<and> loaderCalls (cacheStep c (LoaderSettles k r)) = loaderCalls c"
  by simp

text \<open>
  C4. Take a key with no entry (empty, or failed) and any run of events in which at
  least one call of \<open>get\<close> is on that key and its load has not settled yet; calls on
  other keys and loads of other keys may come in between. Then the loader is invoked for
  the key exactly once, and when that load settles every one of the calls on the key is
  resolved with its outcome, the same for all.
\<close>

theorem concurrent_gets_share_one_load:
  assumes "entries c k = Empty \<or> entries c k = Failed"
    and "\<forall>e \<in> set evs. \<not> settles k e"
    and "getsFor k evs \<noteq> []"
  shows "count_list (loaderCalls (foldl cacheStep c (evs @ [LoaderSettles k r]))) k
           = count_list (loaderCalls c) k + 1
         \<and> resolutions (foldl cacheStep c (evs @ [LoaderSettles k r]))
             = resolutions (foldl cacheStep c evs) @ map (\<lambda>w. (w, r)) (getsFor k evs)
         \<and> (\<forall>w \<in> set (getsFor k evs).
               (w, r) \<in> set (resolutions (foldl cacheStep c (evs @ [LoaderSettles k r]))))"
proof -
  from first_get_starts_one_load [OF assms]
  have st: "entries (foldl cacheStep c evs) k = Loading (getsFor k evs)"
    and cnt: "count_list (loaderCalls (foldl cacheStep c evs)) k = count_list (loaderCalls c) k + 1"
    by simp_all
  from settle_resolves_waiters [OF st, of r] cnt show ?thesis by auto
qed

theorem concurrent_gets_share_one_load_witness:
  "entries emptyCache ''u1'' = Empty
   \<and> getsFor ''u1'' [Get 1 ''u1'', Get 2 ''u2'', Get 3 ''u1'' :: (string, nat) cache_event] = [1, 3]
   \<and> count_list (loaderCalls (foldl cacheStep emptyCache
        [Get 1 ''u1'', Get 2 ''u2'', Get 3 ''u1'', LoaderSettles ''u1'' (Success 42)])) ''u1'' = 1
   \<and> resolutions (foldl cacheStep emptyCache
        [Get 1 ''u1'', Get 2 ''u2'', Get 3 ''u1'', LoaderSettles ''u1'' (Success 42)])
       = [(1, Success 42), (3, Success 42)]"
proof -
  let ?evs = "[Get 1 ''u1'', Get 2 ''u2'', Get 3 ''u1''] :: (string, nat) cache_event list"
  have a: "entries emptyCache ''u1'' = Empty \<or> entries emptyCache ''u1'' = Failed" by simp
  have b: "\<forall>e \<in> set ?evs. \<not> settles ''u1'' e" by simp
  have g: "getsFor ''u1'' ?evs = [1, 3]" by simp
  then have c: "getsFor ''u1'' ?evs \<noteq> []" by simp
  have before: "resolutions (foldl cacheStep emptyCache ?evs) = []"
    by (simp add: startLoad_def)
  from concurrent_gets_share_one_load [OF a b c, of "Success 42"] g before
  show ?thesis by simp
qed

end
